theory Spec2Isabelle
  imports Main "HOL-Library.Sublist"
begin

section \<open>JavaScript values\<close>

text \<open>
  The middleware works on untyped JavaScript values: request bodies parsed from JSON, error
  objects, response bodies. A value is one of the JSON shapes or \<open>undefined\<close>.

  An object is its prototype link and the list of its own enumerable properties in enumeration
  order. The link is \<open>None\<close> for \<open>Object.prototype\<close> (every object literal and every object
  parsed from JSON starts with it) and \<open>Some v\<close> once it has been replaced by \<open>v\<close>
  (\<open>null\<close> or another object). Property names of one object are pairwise distinct; where a
  list repeats a name, reads see the first entry.

  Strings are lists of characters; the characters of the model are the code units below 256.
  The regular expressions of the sanitizer only tell ASCII characters apart. Numbers are
  never computed with, only compared and tested for truthiness; they are integers here.
\<close>

datatype jsval =
    Undefined
  | Null
  | Bool bool
  | Num int
  | Str string
  | Arr "jsval list"
  | Obj "jsval option" "(string \<times> jsval) list"

text \<open>The \<open>typeof\<close> operator. \<open>typeof null\<close> and \<open>typeof []\<close> are both \<open>'object'\<close>.\<close>

fun typeof :: "jsval \<Rightarrow> string" where
  "typeof Undefined = ''undefined''"
| "typeof Null = ''object''"
| "typeof (Bool b) = ''boolean''"
| "typeof (Num n) = ''number''"
| "typeof (Str s) = ''string''"
| "typeof (Arr xs) = ''object''"
| "typeof (Obj p kvs) = ''object''"

text \<open>\<open>Array.isArray\<close>.\<close>

fun isArray :: "jsval \<Rightarrow> bool" where
  "isArray (Arr xs) = True"
| "isArray v = False"

text \<open>Truthiness, as tested by \<open>!x\<close> and \<open>if (x)\<close>.\<close>

fun truthy :: "jsval \<Rightarrow> bool" where
  "truthy Undefined = False"
| "truthy Null = False"
| "truthy (Bool b) = b"
| "truthy (Num n) = (n \<noteq> 0)"
| "truthy (Str s) = (s \<noteq> [])"
| "truthy (Arr xs) = True"
| "truthy (Obj p kvs) = True"

text \<open>Reading a property of \<open>undefined\<close> or \<open>null\<close> throws a TypeError.\<close>

fun nullish :: "jsval \<Rightarrow> bool" where
  "nullish Undefined = True"
| "nullish Null = True"
| "nullish v = False"

text \<open>The decimal name of an array index.\<close>

fun nat_to_string :: "nat \<Rightarrow> string" where
  "nat_to_string n =
     (if n < 10 then [''0123456789'' ! n]
      else nat_to_string (n div 10) @ [''0123456789'' ! (n mod 10)])"

text \<open>
  The own enumerable properties that \<open>for ... in\<close> (filtered by \<open>hasOwnProperty\<close>),
  \<open>Object.keys\<close> and \<open>Object.values\<close> walk through: the properties of an object, the indices
  of an array, the indices of a string; none for the other primitives.
\<close>

fun own_entries :: "jsval \<Rightarrow> (string \<times> jsval) list" where
  "own_entries (Obj p kvs) = kvs"
| "own_entries (Arr xs) = zip (map nat_to_string [0..<length xs]) xs"
| "own_entries (Str s) = zip (map nat_to_string [0..<length s]) (map (\<lambda>c. Str [c]) s)"
| "own_entries v = []"

text \<open>
  The property read \<open>o.k\<close> on a value that is neither \<open>undefined\<close> nor \<open>null\<close>: an own
  property, else the prototype chain. The names read by the code (\<open>title\<close>, \<open>status\<close>,
  \<open>description\<close>, \<open>message\<close>, \<open>name\<close>, \<open>stack\<close>, \<open>code\<close>, \<open>errors\<close>, \<open>keyPattern\<close>,
  \<open>statusCode\<close>) are defined by none of the built-in prototypes of plain objects, arrays,
  strings, numbers and booleans; an error object lists its inherited \<open>name\<close> and
  \<open>message\<close> with its own properties.
\<close>

fun js_get :: "jsval \<Rightarrow> string \<Rightarrow> jsval" where
  "js_get (Obj p kvs) k =
     (case map_of kvs k of
        Some v \<Rightarrow> v
      | None \<Rightarrow> (case p of Some q \<Rightarrow> js_get q k | None \<Rightarrow> Undefined))"
| "js_get v k = (case map_of (own_entries v) k of Some x \<Rightarrow> x | None \<Rightarrow> Undefined)"

text \<open>
  The assignment \<open>o[k] = v\<close> on a plain object. An existing own property keeps its place, a
  new one is appended. The name \<open>__proto__\<close> is not stored: it is the accessor inherited from
  \<open>Object.prototype\<close>, whose setter replaces the prototype link when \<open>v\<close> is an object or
  \<open>null\<close> and does nothing otherwise. (\<open>JSON.parse\<close>, in contrast, defines \<open>__proto__\<close> as an
  ordinary own property, so a parsed body can carry that name as a key.)
\<close>

fun assign_prop :: "(string \<times> jsval) list \<Rightarrow> string \<Rightarrow> jsval \<Rightarrow> (string \<times> jsval) list" where
  "assign_prop [] k v = [(k, v)]"
| "assign_prop ((k', v') # kvs) k v =
     (if k' = k then (k, v) # kvs else (k', v') # assign_prop kvs k v)"

fun js_assign :: "jsval \<Rightarrow> string \<Rightarrow> jsval \<Rightarrow> jsval" where
  "js_assign (Obj p kvs) k v =
     (if k = ''__proto__''
      then (if typeof v = ''object'' then Obj (Some v) kvs else Obj p kvs)
      else Obj p (assign_prop kvs k v))"
| "js_assign o' k v = o'"

section \<open>String operations\<close>

text \<open>\<open>String.prototype.startsWith\<close> and \<open>String.prototype.includes\<close>.\<close>

definition startsWith :: "string \<Rightarrow> string \<Rightarrow> bool" where
  "startsWith s p = prefix p s"

fun js_includes :: "string \<Rightarrow> string \<Rightarrow> bool" where
  "js_includes [] p = (p = [])"
| "js_includes (c # cs) p = (prefix p (c # cs) \<or> js_includes cs p)"

text \<open>
  \<open>String.prototype.trim\<close> removes white space and line terminators at both ends: tab, line
  feed, vertical tab, form feed, carriage return, space and no-break space among the
  characters of the model.
\<close>

definition is_space :: "char \<Rightarrow> bool" where
  "is_space c = (c \<in> set [CHR 0x09, CHR 0x0A, CHR 0x0B, CHR 0x0C, CHR 0x0D, CHR 0x20, CHR 0xA0])"

definition trim :: "string \<Rightarrow> string" where
  "trim s = rev (dropWhile is_space (rev (dropWhile is_space s)))"

text \<open>The string held by a value that \<open>typeof\<close> has shown to be a string.\<close>

fun str_of :: "jsval \<Rightarrow> string" where
  "str_of (Str s) = s"
| "str_of v = []"

section \<open>Regular expressions of the sanitizer\<close>

text \<open>
  \<open>str.replace(re, '')\<close> with a global regular expression: scan from the left; where the
  expression matches, drop the match and go on behind it; otherwise keep the character and
  go on at the next one. A matcher gives the length of the match that starts at the head of
  its argument. Behind an empty match the scan moves on by one character.
\<close>

function replace_all :: "(string \<Rightarrow> nat option) \<Rightarrow> string \<Rightarrow> string" where
  "replace_all m [] = []"
| "replace_all m (c # cs) =
     (case m (c # cs) of
        None \<Rightarrow> c # replace_all m cs
      | Some n \<Rightarrow> if n = 0 then c # replace_all m cs else replace_all m (drop n (c # cs)))"
  by pat_completeness auto
termination
  by (relation "measure (\<lambda>(m, s). length s)") auto

text \<open>The class \<open>\w\<close>: ASCII letters, digits and the underscore.\<close>

definition is_word :: "char \<Rightarrow> bool" where
  "is_word c = (c \<in> set (''abcdefghijklmnopqrstuvwxyz'' @ ''ABCDEFGHIJKLMNOPQRSTUVWXYZ''
                           @ ''0123456789_''))"

text \<open>
  The flag \<open>i\<close> compares characters after mapping them to upper case; without the flag \<open>u\<close>
  no character outside ASCII is mapped onto an ASCII letter.
\<close>

definition canon :: "char \<Rightarrow> char" where
  "canon c =
     (case map_of (zip ''abcdefghijklmnopqrstuvwxyz'' ''ABCDEFGHIJKLMNOPQRSTUVWXYZ'') c of
        Some u \<Rightarrow> u
      | None \<Rightarrow> c)"

definition ci_prefix :: "string \<Rightarrow> string \<Rightarrow> bool" where
  "ci_prefix pat s =
     (length pat \<le> length s \<and> map canon (take (length pat) s) = map canon pat)"

text \<open>
  \<^verbatim>\<open>/<script\b[^<]*(?:(?!<\/script>)<[^<]*)*<\/script>/gi\<close>

  Behind \<open><script\<close> and the word boundary, \<open>[^<]*\<close> takes every character up to the next
  \<open><\<close>; the group takes a \<open><\<close> that does not start \<open></script>\<close> and again every character
  up to the next \<open><\<close>; the closing tag ends the match. \<open>script_body\<close> is that tail: the
  number of characters up to and including the first closing tag.
\<close>

fun script_body :: "string \<Rightarrow> nat option" where
  "script_body [] = None"
| "script_body (c # cs) =
     (if c \<noteq> CHR ''<'' then map_option Suc (script_body cs)
      else if ci_prefix ''</script>'' (c # cs) then Some 9
      else map_option Suc (script_body cs))"

definition match_script :: "string \<Rightarrow> nat option" where
  "match_script s =
     (if ci_prefix ''<script'' s \<and> (case drop 7 s of [] \<Rightarrow> True | c # _ \<Rightarrow> \<not> is_word c)
      then map_option (\<lambda>n. 7 + n) (script_body (drop 7 s))
      else None)"

text \<open>\<^verbatim>\<open>/<[^>]+>/g\<close>: a \<open><\<close>, at least one character other than \<open>>\<close>, the next \<open>>\<close>.\<close>

definition match_tag :: "string \<Rightarrow> nat option" where
  "match_tag s =
     (case s of
        c # d # rest \<Rightarrow>
          if c = CHR ''<'' \<and> d \<noteq> CHR ''>'' \<and> CHR ''>'' \<in> set rest
          then Some (3 + length (takeWhile (\<lambda>x. x \<noteq> CHR ''>'') rest))
          else None
      | _ \<Rightarrow> None)"

text \<open>\<^verbatim>\<open>/\$\w+/g\<close>: a dollar sign and the longest run of word characters behind it.\<close>

definition match_dollar :: "string \<Rightarrow> nat option" where
  "match_dollar s =
     (case s of
        c # d # rest \<Rightarrow>
          if c = CHR ''$'' \<and> is_word d
          then Some (2 + length (takeWhile is_word rest))
          else None
      | _ \<Rightarrow> None)"

section \<open>The sanitizer (middleware/validation.js)\<close>

text \<open>The three replacements of \<open>sanitizeString\<close> on the characters of a string.\<close>

definition sanitize_text :: "string \<Rightarrow> string" where
  "sanitize_text s =
     replace_all match_dollar (replace_all match_tag (replace_all match_script s))"

fun sanitizeString :: "jsval \<Rightarrow> jsval" where
  "sanitizeString (Str s) = Str (sanitize_text s)"
| "sanitizeString v = v"

text \<open>
  \<open>sanitizeObject\<close>: anything that is not a non-null object is returned as it is; otherwise a
  fresh object literal is filled by walking the own properties of the argument. Arrays are
  objects for \<open>typeof\<close>, so an array is walked by its indices and the result is a plain
  object.
\<close>

function sanitizeObject :: "jsval \<Rightarrow> jsval" where
  "sanitizeObject obj =
     (if typeof obj \<noteq> ''object'' \<or> obj = Null then obj
      else fold (\<lambda>(key, v) sanitized.
                   if startsWith key ''$'' then sanitized
                   else if typeof v = ''string'' then js_assign sanitized key (sanitizeString v)
                   else if typeof v = ''object'' then js_assign sanitized key (sanitizeObject v)
                   else js_assign sanitized key v)
                (own_entries obj) (Obj None []))"
  by pat_completeness auto
termination
proof (relation "measure size")
  show "wf (measure size)" by simp
next
  fix obj :: jsval and x :: "string \<times> jsval" and sanitized :: jsval and key :: string and v :: jsval
  assume obj: "\<not> (typeof obj \<noteq> ''object'' \<or> obj = Null)"
    and mem: "x \<in> set (own_entries obj)" and x: "(key, v) = x"
  have "v \<in> snd ` set (own_entries obj)"
    using mem x by force
  then have "size v < size obj"
  proof (cases obj)
    case (Arr xs)
    with \<open>v \<in> snd ` set (own_entries obj)\<close> have "v \<in> set xs"
      by (auto dest: set_zip_rightD)
    then have "size v \<le> size_list size xs"
      by (rule size_list_estimation') simp
    then show ?thesis
      using Arr by simp
  next
    case (Obj p kvs)
    with \<open>v \<in> snd ` set (own_entries obj)\<close> obtain k where "(k, v) \<in> set kvs"
      by auto
    then have "size v < Suc (size_list (size_prod (\<lambda>_. 0) size) kvs)"
      by (induction kvs) auto
    then show ?thesis
      using Obj by simp
  qed (use obj in auto)
  then show "(v, obj) \<in> measure size" by simp
qed

declare sanitizeObject.simps [simp del]

text \<open>
  The loop body of \<open>sanitizeObject\<close> by itself: the value stored for a property, and the
  step for one property (\<open>continue\<close> for a name that starts with \<open>$\<close>).
\<close>

definition sanitize_value :: "jsval \<Rightarrow> jsval" where
  "sanitize_value v =
     (if typeof v = ''string'' then sanitizeString v
      else if typeof v = ''object'' then sanitizeObject v
      else v)"

definition sanitize_entry :: "string \<times> jsval \<Rightarrow> jsval \<Rightarrow> jsval" where
  "sanitize_entry kv sanitized =
     (if startsWith (fst kv) ''$'' then sanitized
      else js_assign sanitized (fst kv) (sanitize_value (snd kv)))"

text \<open>Whether the expression of a matcher matches anywhere in a string.\<close>

fun has_match :: "(string \<Rightarrow> nat option) \<Rightarrow> string \<Rightarrow> bool" where
  "has_match m [] = False"
| "has_match m (c # cs) = (m (c # cs) \<noteq> None \<or> has_match m cs)"

section \<open>Requests, responses and middleware\<close>

text \<open>
  \<open>res.status(code).json(body)\<close> sends one response. A middleware either sends a response
  and stops the chain, or calls \<open>next()\<close> (leaving the request body it has set), or throws.
\<close>

record response =
  statusCode :: jsval
  body :: jsval

datatype jserror = TypeError

datatype 'a mw = Responded response | Next 'a | Threw jserror

section \<open>The validators (middleware/validation.js)\<close>

text \<open>
  \<open>validateObjectId\<close>. The test \<open>mongoose.Types.ObjectId.isValid\<close> belongs to the store's
  driver; it is the parameter \<open>isValid\<close>.
\<close>

definition validateObjectId :: "(string \<Rightarrow> bool) \<Rightarrow> string \<Rightarrow> unit mw" where
  "validateObjectId isValid ident =
     (if \<not> isValid ident
      then Responded \<lparr>statusCode = Num 400,
                      body = Obj None [(''error'', Str ''Invalid task ID format'')]\<rparr>
      else Next ())"

text \<open>
  Modelled from the spec: the identifier format of the reference store, a 24-character
  hexadecimal string (section 4.4); the driver's own test is not among the sources.
\<close>

definition is_hex :: "char \<Rightarrow> bool" where
  "is_hex c = (c \<in> set ''0123456789abcdefABCDEF'')"

definition hex24 :: "string \<Rightarrow> bool" where
  "hex24 s = (length s = 24 \<and> list_all is_hex s)"

text \<open>The messages of the validation error report.\<close>

abbreviation title_required_message :: string where
  "title_required_message \<equiv> ''Title is required and must be a non-empty string''"

abbreviation title_update_message :: string where
  "title_update_message \<equiv> ''Title must be a non-empty string''"

abbreviation status_enum_message :: string where
  "status_enum_message \<equiv> ''Status must be either 'pending' or 'completed'' @ [CHR 0x27]"

abbreviation description_message :: string where
  "description_message \<equiv> ''Description must be a string''"

abbreviation no_valid_field_message :: string where
  "no_valid_field_message \<equiv>
     ''At least one valid field (title, status, or description) must be provided''"

text \<open>
  \<open>validateTaskInput\<close>. The body is replaced by its sanitized version; destructuring it
  throws when it is \<open>undefined\<close> or \<open>null\<close>.
\<close>

definition validateTaskInput :: "jsval \<Rightarrow> jsval mw" where
  "validateTaskInput req_body =
     (let body' = sanitizeObject req_body in
      if nullish body' then Threw TypeError
      else
        let title = js_get body' ''title'';
            status = js_get body' ''status'';
            description = js_get body' ''description'';
            errors =
              (if \<not> truthy title \<or> typeof title \<noteq> ''string'' \<or> trim (str_of title) = []
               then [title_required_message] else [])
              @ (if status \<noteq> Undefined
                 then (if typeof status \<noteq> ''string''
                          \<or> status \<notin> set [Str ''pending'', Str ''completed'']
                       then [status_enum_message] else [])
                 else [])
              @ (if description \<noteq> Undefined \<and> typeof description \<noteq> ''string''
                 then [description_message] else [])
        in if length errors > 0
           then Responded \<lparr>statusCode = Num 400,
                           body = Obj None [(''error'', Str ''Validation failed''),
                                            (''details'', Arr (map Str errors))]\<rparr>
           else Next body')"

text \<open>\<open>validateTaskUpdate\<close>.\<close>

definition validateTaskUpdate :: "jsval \<Rightarrow> jsval mw" where
  "validateTaskUpdate req_body =
     (let body' = sanitizeObject req_body in
      if nullish body' then Threw TypeError
      else
        let title = js_get body' ''title'';
            status = js_get body' ''status'';
            description = js_get body' ''description'';
            validFields = [''title'', ''status'', ''description''];
            providedFields = map fst (own_entries body');
            hasValidField = list_ex (\<lambda>field. field \<in> set validFields) providedFields;
            errors =
              (if \<not> hasValidField \<or> length providedFields = 0
               then [no_valid_field_message]
               else [])
              @ (if title \<noteq> Undefined
                 then (if typeof title \<noteq> ''string'' \<or> trim (str_of title) = []
                       then [title_update_message] else [])
                 else [])
              @ (if status \<noteq> Undefined
                 then (if typeof status \<noteq> ''string''
                          \<or> status \<notin> set [Str ''pending'', Str ''completed'']
                       then [status_enum_message] else [])
                 else [])
              @ (if description \<noteq> Undefined \<and> typeof description \<noteq> ''string''
                 then [description_message] else [])
        in if length errors > 0
           then Responded \<lparr>statusCode = Num 400,
                           body = Obj None [(''error'', Str ''Validation failed''),
                                            (''details'', Arr (map Str errors))]\<rparr>
           else Next body')"

section \<open>The error handler (middleware/errorHandler.js)\<close>

text \<open>
  The status and body chosen for a failure, before the stack is added. \<open>Object.values\<close> and
  \<open>Object.keys\<close> throw on \<open>undefined\<close> and \<open>null\<close>, and so does reading \<open>e.message\<close> from
  such an entry. The template literal prints a missing first key as \<open>undefined\<close>.
\<close>

definition error_response :: "jsval \<Rightarrow> jserror + jsval \<times> jsval" where
  "error_response err =
     (if js_get err ''name'' = Str ''ValidationError'' then
        (let errors = js_get err ''errors'' in
         if nullish errors then Inl TypeError
         else if list_ex nullish (map snd (own_entries errors)) then Inl TypeError
         else
           let messages = map (\<lambda>e. js_get e ''message'') (map snd (own_entries errors))
           in Inr (Num 400, Obj None [(''error'', Str ''Validation failed''),
                                      (''details'', Arr messages)]))
      else if js_get err ''name'' = Str ''CastError'' then
        Inr (Num 400, Obj None [(''error'', Str ''Invalid ID format'')])
      else if js_get err ''code'' = Num 11000 then
        (let keyPattern = js_get err ''keyPattern'' in
         if nullish keyPattern then Inl TypeError
         else
           let field = (case map fst (own_entries keyPattern) of
                          [] \<Rightarrow> ''undefined''
                        | k # _ \<Rightarrow> k)
           in Inr (Num 400, Obj None [(''error'', Str (''Duplicate value for field: '' @ field))]))
      else if js_get err ''name'' = Str ''MongoNetworkError''
              \<or> js_get err ''name'' = Str ''MongoTimeoutError'' then
        Inr (Num 503, Obj None [(''error'', Str ''Service temporarily unavailable'')])
      else if truthy (js_get err ''statusCode'') then
        Inr (js_get err ''statusCode'', Obj None [(''error'', js_get err ''message'')])
      else if truthy (js_get err ''message'') then
        Inr (Num 500, Obj None [(''error'', js_get err ''message'')])
      else
        Inr (Num 500, Obj None [(''error'', Str ''Internal server error'')]))"

text \<open>
  \<open>errorHandler\<close>, given the value of \<open>process.env.NODE_ENV\<close>: what it writes with
  \<open>console.error\<close>, and the response it sends unless it throws.
\<close>

record handled =
  logged :: "(string \<times> jsval) list"
  outcome :: "jserror + response"

definition errorHandler :: "string option \<Rightarrow> jsval \<Rightarrow> handled" where
  "errorHandler node_env err =
     (if nullish err then \<lparr>logged = [], outcome = Inl TypeError\<rparr>
      else
        \<lparr>logged = (''Error:'', js_get err ''message'')
                   # (if node_env = Some ''development''
                      then [(''Stack:'', js_get err ''stack'')] else []),
         outcome =
           (case error_response err of
              Inl e \<Rightarrow> Inl e
            | Inr (code, errorResponse) \<Rightarrow>
                Inr \<lparr>statusCode = code,
                     body = (if node_env = Some ''development''
                             then js_assign errorResponse ''stack'' (js_get err ''stack'')
                             else errorResponse)\<rparr>)\<rparr>)"

section \<open>Routes (routes/tasks.js)\<close>

text \<open>
  The Task model is the collaborator of the routes: five operations on a store \<open>'s\<close>, each
  resolving (\<open>Inr\<close>) or rejecting with an error value (\<open>Inl\<close>).
\<close>

record 's task_model =
  Task_create :: "jsval \<Rightarrow> 's \<Rightarrow> (jsval + jsval) \<times> 's"
  Task_find :: "'s \<Rightarrow> (jsval + jsval) \<times> 's"
  Task_findById :: "string \<Rightarrow> 's \<Rightarrow> (jsval + jsval) \<times> 's"
  Task_findByIdAndUpdate :: "string \<Rightarrow> jsval \<Rightarrow> 's \<Rightarrow> (jsval + jsval) \<times> 's"
  Task_findByIdAndDelete :: "string \<Rightarrow> 's \<Rightarrow> (jsval + jsval) \<times> 's"

text \<open>
  What a route leaves behind: a response sent, an error handed to \<open>next(err)\<close> (which
  the application passes to \<open>errorHandler\<close>, registered behind the routes in server.js), or
  an exception of its own.
\<close>

datatype reply = Sent response | Forwarded jsval | Crashed jserror

text \<open>
  The \<open>catch (err)\<close> block shared by four routes: it answers 400 with the message of the
  error and does not call \<open>next\<close>.
\<close>

definition catch_400 :: "jsval \<Rightarrow> reply" where
  "catch_400 err =
     (if nullish err then Crashed TypeError
      else Sent \<lparr>statusCode = Num 400, body = Obj None [(''error'', js_get err ''message'')]\<rparr>)"

definition task_not_found :: reply where
  "task_not_found =
     Sent \<lparr>statusCode = Num 404, body = Obj None [(''error'', Str ''Task not found'')]\<rparr>"

text \<open>\<open>asyncHandler\<close> (middleware/asyncHandler.js): a rejection goes to \<open>next\<close>.\<close>

definition asyncHandler :: "('s \<Rightarrow> (jsval + response) \<times> 's) \<Rightarrow> 's \<Rightarrow> reply \<times> 's" where
  "asyncHandler fn s =
     (case fn s of
        (Inl err, s') \<Rightarrow> (Forwarded err, s')
      | (Inr res, s') \<Rightarrow> (Sent res, s'))"

text \<open>\<open>router.post("/")\<close>\<close>

definition route_post :: "'s task_model \<Rightarrow> jsval \<Rightarrow> 's \<Rightarrow> reply \<times> 's" where
  "route_post Task req_body s =
     (case validateTaskInput req_body of
        Responded res \<Rightarrow> (Sent res, s)
      | Threw e \<Rightarrow> (Crashed e, s)
      | Next body' \<Rightarrow>
          (case Task_create Task body' s of
             (Inr task, s') \<Rightarrow> (Sent \<lparr>statusCode = Num 201, body = task\<rparr>, s')
           | (Inl err, s') \<Rightarrow> (catch_400 err, s')))"

text \<open>\<open>router.get("/")\<close>\<close>

definition route_get_all :: "'s task_model \<Rightarrow> 's \<Rightarrow> reply \<times> 's" where
  "route_get_all Task s =
     asyncHandler
       (\<lambda>s. case Task_find Task s of
               (Inr tasks, s') \<Rightarrow> (Inr \<lparr>statusCode = Num 200, body = tasks\<rparr>, s')
             | (Inl err, s') \<Rightarrow> (Inl err, s'))
       s"

text \<open>\<open>router.get("/:id")\<close>\<close>

definition route_get_one ::
  "'s task_model \<Rightarrow> (string \<Rightarrow> bool) \<Rightarrow> string \<Rightarrow> 's \<Rightarrow> reply \<times> 's" where
  "route_get_one Task isValid ident s =
     (case validateObjectId isValid ident of
        Responded res \<Rightarrow> (Sent res, s)
      | Threw e \<Rightarrow> (Crashed e, s)
      | Next _ \<Rightarrow>
          (case Task_findById Task ident s of
             (Inr task, s') \<Rightarrow>
               (if \<not> truthy task then (task_not_found, s')
                else (Sent \<lparr>statusCode = Num 200, body = task\<rparr>, s'))
           | (Inl err, s') \<Rightarrow> (catch_400 err, s')))"

text \<open>\<open>router.put("/:id")\<close>\<close>

definition route_put ::
  "'s task_model \<Rightarrow> (string \<Rightarrow> bool) \<Rightarrow> string \<Rightarrow> jsval \<Rightarrow> 's \<Rightarrow> reply \<times> 's" where
  "route_put Task isValid ident req_body s =
     (case validateObjectId isValid ident of
        Responded res \<Rightarrow> (Sent res, s)
      | Threw e \<Rightarrow> (Crashed e, s)
      | Next _ \<Rightarrow>
          (case validateTaskUpdate req_body of
             Responded res \<Rightarrow> (Sent res, s)
           | Threw e \<Rightarrow> (Crashed e, s)
           | Next body' \<Rightarrow>
               (case Task_findByIdAndUpdate Task ident body' s of
                  (Inr task, s') \<Rightarrow>
                    (if \<not> truthy task then (task_not_found, s')
                     else (Sent \<lparr>statusCode = Num 200, body = task\<rparr>, s'))
                | (Inl err, s') \<Rightarrow> (catch_400 err, s'))))"

text \<open>\<open>router.delete("/:id")\<close>\<close>

definition route_delete ::
  "'s task_model \<Rightarrow> (string \<Rightarrow> bool) \<Rightarrow> string \<Rightarrow> 's \<Rightarrow> reply \<times> 's" where
  "route_delete Task isValid ident s =
     (case validateObjectId isValid ident of
        Responded res \<Rightarrow> (Sent res, s)
      | Threw e \<Rightarrow> (Crashed e, s)
      | Next _ \<Rightarrow>
          (case Task_findByIdAndDelete Task ident s of
             (Inr task, s') \<Rightarrow>
               (if \<not> truthy task then (task_not_found, s')
                else (Sent \<lparr>statusCode = Num 200,
                            body = Obj None [(''message'', Str ''Task deleted'')]\<rparr>, s'))
           | (Inl err, s') \<Rightarrow> (catch_400 err, s')))"

section \<open>The task store\<close>

text \<open>
  Modelled from the spec: the Task model (models/task.js) and the document store behind it,
  which are not among the sources. A task has the fields \<open>_id\<close>, \<open>title\<close>, \<open>description\<close>,
  \<open>status\<close> and \<open>createdAt\<close>; the identifier is generated at creation and immutable,
  \<open>createdAt\<close> is set once at creation and never mutated, the status defaults to
  \<open>pending\<close>; an update may change \<open>title\<close>, \<open>description\<close> and \<open>status\<close> (section 3).
  The operations are those of section 6: an update by identifier writes the supplied ones
  among the fields it may change and leaves the others untouched (section 4.3), enforces
  the schema (a title that is a non-empty string, a status of the enumeration), and
  resolves to the updated task or to \<open>null\<close>.
  The store is the list of its documents; an operation by identifier works on the first
  document that carries the identifier.
\<close>

type_synonym store = "jsval list"

definition mutable_fields :: "string list" where
  "mutable_fields = [''title'', ''description'', ''status'']"

definition has_id :: "string \<Rightarrow> jsval \<Rightarrow> bool" where
  "has_id ident doc = (js_get doc ''_id'' = Str ident)"

definition write_fields :: "jsval \<Rightarrow> jsval \<Rightarrow> jsval" where
  "write_fields doc given =
     fold (\<lambda>(k, v) d. if k \<in> set mutable_fields then js_assign d k v else d)
          (own_entries given) doc"

definition schema_ok :: "jsval \<Rightarrow> bool" where
  "schema_ok doc =
     (typeof (js_get doc ''title'') = ''string'' \<and> trim (str_of (js_get doc ''title'')) \<noteq> []
      \<and> js_get doc ''status'' \<in> set [Str ''pending'', Str ''completed''])"

definition schema_failure :: jsval where
  "schema_failure =
     Obj None [(''name'', Str ''ValidationError''), (''message'', Str ''Task validation failed''),
               (''errors'', Obj None [])]"

definition store_create ::
  "(store \<Rightarrow> string) \<Rightarrow> jsval \<Rightarrow> jsval \<Rightarrow> store \<Rightarrow> (jsval + jsval) \<times> store" where
  "store_create new_id now given st =
     (let doc = write_fields (Obj None [(''_id'', Str (new_id st)), (''status'', Str ''pending''),
                                        (''createdAt'', now)]) given
      in if schema_ok doc then (Inr doc, st @ [doc]) else (Inl schema_failure, st))"

definition store_find :: "store \<Rightarrow> (jsval + jsval) \<times> store" where
  "store_find st = (Inr (Arr st), st)"

definition store_findById :: "string \<Rightarrow> store \<Rightarrow> (jsval + jsval) \<times> store" where
  "store_findById ident st =
     (case find (has_id ident) st of None \<Rightarrow> (Inr Null, st) | Some doc \<Rightarrow> (Inr doc, st))"

fun replace_first :: "(jsval \<Rightarrow> bool) \<Rightarrow> jsval \<Rightarrow> store \<Rightarrow> store" where
  "replace_first P doc' [] = []"
| "replace_first P doc' (d # ds) = (if P d then doc' # ds else d # replace_first P doc' ds)"

fun remove_first :: "(jsval \<Rightarrow> bool) \<Rightarrow> store \<Rightarrow> store" where
  "remove_first P [] = []"
| "remove_first P (d # ds) = (if P d then ds else d # remove_first P ds)"

definition store_findByIdAndUpdate ::
  "string \<Rightarrow> jsval \<Rightarrow> store \<Rightarrow> (jsval + jsval) \<times> store" where
  "store_findByIdAndUpdate ident given st =
     (case find (has_id ident) st of
        None \<Rightarrow> (Inr Null, st)
      | Some doc \<Rightarrow>
          (let doc' = write_fields doc given
           in if schema_ok doc'
              then (Inr doc', replace_first (has_id ident) doc' st)
              else (Inl schema_failure, st)))"

definition store_findByIdAndDelete :: "string \<Rightarrow> store \<Rightarrow> (jsval + jsval) \<times> store" where
  "store_findByIdAndDelete ident st =
     (case find (has_id ident) st of
        None \<Rightarrow> (Inr Null, st)
      | Some doc \<Rightarrow> (Inr doc, remove_first (has_id ident) st))"

definition task_store :: "(store \<Rightarrow> string) \<Rightarrow> jsval \<Rightarrow> store task_model" where
  "task_store new_id now =
     \<lparr>Task_create = store_create new_id now,
      Task_find = store_find,
      Task_findById = store_findById,
      Task_findByIdAndUpdate = store_findByIdAndUpdate,
      Task_findByIdAndDelete = store_findByIdAndDelete\<rparr>"

section \<open>Failures\<close>

text \<open>
  A connectivity failure as the driver raises it, and a Task model whose store cannot be
  reached: every operation rejects with that failure.
\<close>

definition network_error :: jsval where
  "network_error =
     Obj None [(''name'', Str ''MongoNetworkError''), (''message'', Str ''connection lost''),
               (''stack'', Str ''MongoNetworkError: connection lost at pool.js'')]"

definition unreachable :: "'s task_model" where
  "unreachable =
     \<lparr>Task_create = (\<lambda>given s. (Inl network_error, s)),
      Task_find = (\<lambda>s. (Inl network_error, s)),
      Task_findById = (\<lambda>ident s. (Inl network_error, s)),
      Task_findByIdAndUpdate = (\<lambda>ident given s. (Inl network_error, s)),
      Task_findByIdAndDelete = (\<lambda>ident s. (Inl network_error, s))\<rparr>"

text \<open>
  The failure objects on which \<open>errorHandler\<close> neither throws nor sends a body whose
  \<open>error\<close> is not a string: the branch taken finds the data it reads.
\<close>

definition plain_failure :: "jsval \<Rightarrow> bool" where
  "plain_failure err =
     (\<not> nullish err \<and>
      (if js_get err ''name'' = Str ''ValidationError'' then
         \<not> nullish (js_get err ''errors'')
         \<and> \<not> list_ex nullish (map snd (own_entries (js_get err ''errors'')))
       else if js_get err ''name'' = Str ''CastError'' then True
       else if js_get err ''code'' = Num 11000 then \<not> nullish (js_get err ''keyPattern'')
       else if js_get err ''name'' = Str ''MongoNetworkError''
               \<or> js_get err ''name'' = Str ''MongoTimeoutError'' then True
       else if truthy (js_get err ''statusCode'') \<or> truthy (js_get err ''message'')
         then typeof (js_get err ''message'') = ''string''
       else True))"

section \<open>Shapes\<close>





section \<open>The rules of the creation report\<close>

text \<open>
  The three field rules of section 4.2, in the spec's words, on the fields of the sanitized
  payload, that is on its own properties: the title must be present, a string, and
  non-empty after trimming; a status that is present must be a string of the enumeration;
  a description that is present must be a string. The report lists the message of every
  broken rule, in that order.
\<close>

definition own_field :: "jsval \<Rightarrow> string \<Rightarrow> jsval" where
  "own_field b k = (case map_of (own_entries b) k of Some v \<Rightarrow> v | None \<Rightarrow> Undefined)"

definition title_rule_broken :: "jsval \<Rightarrow> bool" where
  "title_rule_broken b =
     (own_field b ''title'' = Undefined \<or> typeof (own_field b ''title'') \<noteq> ''string''
      \<or> trim (str_of (own_field b ''title'')) = [])"

definition status_rule_broken :: "jsval \<Rightarrow> bool" where
  "status_rule_broken b =
     (own_field b ''status'' \<noteq> Undefined
      \<and> \<not> (typeof (own_field b ''status'') = ''string''
             \<and> own_field b ''status'' \<in> {Str ''pending'', Str ''completed''}))"

definition description_rule_broken :: "jsval \<Rightarrow> bool" where
  "description_rule_broken b =
     (own_field b ''description'' \<noteq> Undefined \<and> typeof (own_field b ''description'') \<noteq> ''string'')"

definition creation_rules :: "((jsval \<Rightarrow> bool) \<times> string) list" where
  "creation_rules =
     [(title_rule_broken, title_required_message),
      (status_rule_broken, status_enum_message),
      (description_rule_broken, description_message)]"

definition creation_report :: "jsval \<Rightarrow> string list" where
  "creation_report b = map snd (filter (\<lambda>rule. fst rule b) creation_rules)"

text \<open>A stored task and a store model, for the examples.\<close>

definition milk :: jsval where
  "milk = Obj None [(''_id'', Str ''507f1f77bcf86cd799439011''), (''title'', Str ''Buy milk''),
                    (''status'', Str ''pending''), (''createdAt'', Str ''2024-01-15T10:30:00.000Z'')]"

definition example_store :: "store task_model" where
  "example_store = task_store (\<lambda>st. ''507f1f77bcf86cd799439012'') Null"

section \<open>Global replacement\<close>

lemma replace_all_keep: "m (c # cs) = None \<Longrightarrow> replace_all m (c # cs) = c # replace_all m cs"
  by simp

lemma replace_all_drop:
  "m (c # cs) = Some n \<Longrightarrow> 0 < n \<Longrightarrow> replace_all m (c # cs) = replace_all m (drop n (c # cs))"
  by simp

lemma replace_all_scan [case_names Nil Keep Drop]:
  fixes m :: "string \<Rightarrow> nat option"
  assumes "P []"
    and "\<And>c cs. m (c # cs) = None \<or> m (c # cs) = Some 0 \<Longrightarrow> P cs \<Longrightarrow> P (c # cs)"
    and "\<And>c cs n. m (c # cs) = Some n \<Longrightarrow> 0 < n \<Longrightarrow> P (drop n (c # cs)) \<Longrightarrow> P (c # cs)"
  shows "P s"
proof (induction "length s" arbitrary: s rule: less_induct)
  case less
  show ?case
  proof (cases s)
    case Nil
    then show ?thesis using assms(1) by simp
  next
    case (Cons c cs)
    have cs: "P cs" using less Cons by simp
    show ?thesis
    proof (cases "m (c # cs)")
      case None
      then show ?thesis using assms(2) cs Cons by simp
    next
      case (Some n)
      show ?thesis
      proof (cases "n = 0")
        case True
        then show ?thesis using assms(2) Some cs Cons by simp
      next
        case False
        then have "length (drop n (c # cs)) < length s" using Cons by simp
        then have "P (drop n (c # cs))" by (rule less)
        then show ?thesis using assms(3) [of c cs n] Some False Cons by simp
      qed
    qed
  qed
qed

lemma set_replace_all: "set (replace_all m s) \<subseteq> set s"
proof (induction s rule: replace_all_scan [where m = m])
  case Nil
  show ?case by simp
next
  case (Keep c cs)
  then show ?case by auto
next
  case (Drop c cs n)
  have "set (drop n (c # cs)) \<subseteq> set (c # cs)" by (rule set_drop_subset)
  with Drop.IH have "set (replace_all m (drop n (c # cs))) \<subseteq> set (c # cs)" by (rule subset_trans)
  then show ?case unfolding replace_all_drop [of m c cs n, OF Drop.hyps] .
qed

lemma replace_all_no_match: "\<not> has_match m s \<Longrightarrow> replace_all m s = s"
  by (induction s) auto

lemma has_match_drop: "\<not> has_match m s \<Longrightarrow> \<not> has_match m (drop n s)"
proof (induction s arbitrary: n)
  case Nil
  show ?case by simp
next
  case (Cons c cs)
  show ?case
  proof (cases n)
    case 0
    with Cons.prems show ?thesis by simp
  next
    case (Suc k)
    with Cons show ?thesis by simp
  qed
qed

lemma has_match_suffix: "has_match m s \<longleftrightarrow> (\<exists>p u. s = p @ u \<and> m u \<noteq> None \<and> u \<noteq> [])"
proof (induction s)
  case Nil
  show ?case by simp
next
  case (Cons c cs)
  show ?case
  proof
    assume "has_match m (c # cs)"
    then consider "m (c # cs) \<noteq> None" | "has_match m cs" by auto
    then show "\<exists>p u. c # cs = p @ u \<and> m u \<noteq> None \<and> u \<noteq> []"
    proof cases
      case 1
      then have "c # cs = [] @ (c # cs) \<and> m (c # cs) \<noteq> None \<and> c # cs \<noteq> []" by simp
      then show ?thesis by blast
    next
      case 2
      with Cons obtain p u where "cs = p @ u" "m u \<noteq> None" "u \<noteq> []" by blast
      then have "c # cs = (c # p) @ u \<and> m u \<noteq> None \<and> u \<noteq> []" by simp
      then show ?thesis by blast
    qed
  next
    assume "\<exists>p u. c # cs = p @ u \<and> m u \<noteq> None \<and> u \<noteq> []"
    then obtain p u where pu: "c # cs = p @ u" "m u \<noteq> None" "u \<noteq> []" by blast
    show "has_match m (c # cs)"
    proof (cases p)
      case Nil
      with pu show ?thesis by (cases u) auto
    next
      case (Cons a p')
      with pu have "cs = p' @ u" by simp
      with pu Cons.IH show ?thesis by auto
    qed
  qed
qed

subsection \<open>Markup tags\<close>

lemma match_tag_pos: "match_tag s = Some n \<Longrightarrow> 0 < n"
  by (auto simp: match_tag_def split: list.splits if_splits)

lemma match_tag_gt [simp]: "match_tag (CHR ''>'' # s) = None"
  by (simp add: match_tag_def split: list.splits)

lemma match_dollar_gt [simp]: "match_dollar (CHR ''>'' # s) = None"
  by (simp add: match_dollar_def is_word_def split: list.splits)

lemma match_tag_keep:
  assumes "match_tag (c # cs) = None"
    and "set r \<subseteq> set cs"
    and "\<And>x. cs = CHR ''>'' # x \<Longrightarrow> \<exists>y. r = CHR ''>'' # y"
  shows "match_tag (c # r) = None"
proof (cases "c = CHR ''<''")
  case False
  then show ?thesis by (simp add: match_tag_def split: list.splits)
next
  case True
  show ?thesis
  proof (cases cs)
    case Nil
    with assms(2) show ?thesis by (simp add: match_tag_def)
  next
    case (Cons d rest)
    show ?thesis
    proof (cases "d = CHR ''>''")
      case True
      with Cons assms(3) obtain y where "r = CHR ''>'' # y" by blast
      then show ?thesis by (simp add: match_tag_def)
    next
      case False
      with assms(1) True Cons have "CHR ''>'' \<notin> set rest"
        by (simp add: match_tag_def split: if_splits)
      with False Cons have "CHR ''>'' \<notin> set cs" by simp
      with assms(2) have "CHR ''>'' \<notin> set r" by blast
      then show ?thesis by (auto simp: match_tag_def split: list.splits)
    qed
  qed
qed

lemma replace_all_gt:
  "m (CHR ''>'' # x) = None \<Longrightarrow> \<exists>y. replace_all m (CHR ''>'' # x) = CHR ''>'' # y"
  by simp

lemma no_tag_after_tags: "\<not> has_match match_tag (replace_all match_tag s)"
proof (induction s rule: replace_all_scan [where m = match_tag])
  case Nil
  show ?case by simp
next
  case (Keep c cs)
  then have none: "match_tag (c # cs) = None" using match_tag_pos by fastforce
  have "match_tag (c # replace_all match_tag cs) = None"
    by (rule match_tag_keep [OF none set_replace_all]) simp
  with Keep none show ?case by simp
next
  case (Drop c cs n)
  then show ?case unfolding replace_all_drop [of match_tag c cs n, OF Drop.hyps] by blast
qed

lemma match_dollar_pos: "match_dollar s = Some n \<Longrightarrow> 0 < n"
  by (auto simp: match_dollar_def split: list.splits if_splits)

lemma no_tag_after_dollars:
  "\<not> has_match match_tag s \<Longrightarrow> \<not> has_match match_tag (replace_all match_dollar s)"
proof (induction s rule: replace_all_scan [where m = match_dollar])
  case Nil
  show ?case by simp
next
  case (Keep c cs)
  then have none: "match_dollar (c # cs) = None" using match_dollar_pos by fastforce
  from Keep.prems have tag: "match_tag (c # cs) = None" and rest: "\<not> has_match match_tag cs"
    by simp_all
  have "match_tag (c # replace_all match_dollar cs) = None"
    by (rule match_tag_keep [OF tag set_replace_all]) simp
  with Keep.IH rest none show ?case by simp
next
  case (Drop c cs n)
  from Drop.prems have "\<not> has_match match_tag (drop n (c # cs))" by (rule has_match_drop)
  with Drop.IH show ?case unfolding replace_all_drop [of match_dollar c cs n, OF Drop.hyps] by blast
qed

subsection \<open>Dollar tokens\<close>

lemma match_dollar_drop:
  "match_dollar (c # cs) = Some n \<Longrightarrow> \<exists>d rest. cs = d # rest \<and> drop n (c # cs) = dropWhile is_word rest"
  by (auto simp: match_dollar_def dropWhile_eq_drop split: list.splits if_splits)

lemma head_after_dollars:
  "s = [] \<or> \<not> is_word (hd s) \<Longrightarrow>
   replace_all match_dollar s = [] \<or> \<not> is_word (hd (replace_all match_dollar s))"
proof (induction s rule: replace_all_scan [where m = match_dollar])
  case Nil
  show ?case by simp
next
  case (Keep c cs)
  then have none: "match_dollar (c # cs) = None" using match_dollar_pos by fastforce
  with Keep.prems show ?case by simp
next
  case (Drop c cs n)
  from match_dollar_drop [OF Drop.hyps(1)] obtain d rest
    where eq: "drop n (c # cs) = dropWhile is_word rest" by blast
  have "dropWhile is_word rest = [] \<or> \<not> is_word (hd (dropWhile is_word rest))"
    using hd_dropWhile by blast
  with Drop.IH eq show ?case unfolding replace_all_drop [of match_dollar c cs n, OF Drop.hyps] by simp
qed

lemma no_dollar_after_dollars: "\<not> has_match match_dollar (replace_all match_dollar s)"
proof (induction s rule: replace_all_scan [where m = match_dollar])
  case Nil
  show ?case by simp
next
  case (Keep c cs)
  then have none: "match_dollar (c # cs) = None" using match_dollar_pos by fastforce
  have "match_dollar (c # replace_all match_dollar cs) = None"
  proof (cases "c = CHR ''$''")
    case False
    then show ?thesis by (simp add: match_dollar_def split: list.splits)
  next
    case True
    with none have "cs = [] \<or> \<not> is_word (hd cs)"
      by (auto simp: match_dollar_def split: list.splits if_splits)
    then have "replace_all match_dollar cs = [] \<or> \<not> is_word (hd (replace_all match_dollar cs))"
      by (rule head_after_dollars)
    then show ?thesis by (auto simp: match_dollar_def split: list.splits)
  qed
  with Keep none show ?case by simp
next
  case (Drop c cs n)
  then show ?case unfolding replace_all_drop [of match_dollar c cs n, OF Drop.hyps] by blast
qed

subsection \<open>Script blocks\<close>

lemma canon_lt: "canon c = CHR ''<'' \<Longrightarrow> c = CHR ''<''"
  by (auto simp: canon_def split: option.splits if_splits)

lemma canon_gt: "canon c = CHR ''>'' \<Longrightarrow> c = CHR ''>''"
  by (auto simp: canon_def split: option.splits if_splits)

lemma canon_slash: "canon c = CHR ''/'' \<Longrightarrow> c \<noteq> CHR ''>''"
  by (auto simp: canon_def split: option.splits if_splits)

lemma close_tag_is_tag:
  assumes "ci_prefix ''</script>'' u"
  shows "match_tag u \<noteq> None"
proof -
  have nine: "length ''</script>'' = 9" by simp
  from assms have eq: "map canon (take 9 u) = map canon ''</script>''"
    unfolding ci_prefix_def nine by blast
  then obtain a b mid c9 where t: "take 9 u = a # b # mid @ [c9]"
    and ca: "canon a = CHR ''<''" and cb: "canon b = CHR ''/''" and cc: "canon c9 = CHR ''>''"
    by (auto simp: map_eq_Cons_conv canon_def)
  from ca cb cc have abc: "a = CHR ''<''" "b \<noteq> CHR ''>''" "c9 = CHR ''>''"
    by (auto dest: canon_lt canon_gt canon_slash)
  have "u = take 9 u @ drop 9 u" by simp
  with t have "u = a # b # (mid @ c9 # drop 9 u)" by simp
  then obtain rest where u: "u = a # b # rest" and "c9 \<in> set rest" by auto
  with abc show ?thesis by (simp add: match_tag_def)
qed

lemma script_body_tag: "script_body s = Some n \<Longrightarrow> has_match match_tag s"
proof (induction s arbitrary: n)
  case Nil
  then show ?case by simp
next
  case (Cons c cs)
  show ?case
  proof (cases "ci_prefix ''</script>'' (c # cs)")
    case True
    then show ?thesis using close_tag_is_tag by simp
  next
    case False
    with Cons.prems obtain k where "script_body cs = Some k"
      by (auto split: if_splits)
    with Cons.IH show ?thesis by simp
  qed
qed

lemma match_script_tag:
  assumes "match_script u \<noteq> None"
  shows "has_match match_tag u"
proof -
  from assms obtain k where "script_body (drop 7 u) = Some k"
    by (auto simp: match_script_def split: if_splits)
  then have "has_match match_tag (drop 7 u)" by (rule script_body_tag)
  then show ?thesis using has_match_drop by blast
qed

lemma no_script_without_tag: "\<not> has_match match_tag s \<Longrightarrow> \<not> has_match match_script s"
proof (induction s)
  case Nil
  show ?case by simp
next
  case (Cons c cs)
  from Cons.prems have "\<not> has_match match_tag (c # cs)" .
  then have "match_script (c # cs) = None"
    using match_script_tag [of "c # cs"] by blast
  moreover from Cons have "\<not> has_match match_script cs" by simp
  ultimately show ?case by simp
qed

lemma sanitize_text_clean:
  "\<not> has_match match_tag (sanitize_text s)" "\<not> has_match match_dollar (sanitize_text s)"
  "\<not> has_match match_script (sanitize_text s)"
proof -
  show t: "\<not> has_match match_tag (sanitize_text s)"
    unfolding sanitize_text_def by (intro no_tag_after_dollars no_tag_after_tags)
  show "\<not> has_match match_dollar (sanitize_text s)"
    unfolding sanitize_text_def by (rule no_dollar_after_dollars)
  from t show "\<not> has_match match_script (sanitize_text s)"
    by (rule no_script_without_tag)
qed

lemma sanitize_text_fixed:
  assumes "\<not> has_match match_tag r" and "\<not> has_match match_dollar r"
  shows "sanitize_text r = r"
proof -
  from assms(1) have "\<not> has_match match_script r" by (rule no_script_without_tag)
  then show ?thesis
    using assms by (simp add: sanitize_text_def replace_all_no_match)
qed

text \<open>
  C9. \<open>sanitizeString\<close> is idempotent: sanitizing a sanitized value changes nothing. What
  the three replacements return holds no markup tag and no dollar token, hence no script
  block either (a script block ends in a closing tag), so a second run finds nothing to
  remove. Values that are not strings are returned as they are both times.
\<close>

theorem sanitizeString_idempotent: "sanitizeString (sanitizeString v) = sanitizeString v"
proof (cases v)
  case (Str s)
  have "sanitize_text (sanitize_text s) = sanitize_text s"
    by (rule sanitize_text_fixed) (rule sanitize_text_clean)+
  with Str show ?thesis by simp
qed simp_all

theorem sanitizeString_idempotent_witness:
  "sanitizeString (sanitizeString (Str ''a$<b>x <<i>script>y</script >''))
     = Str ''a script>y''"
proof -
  have run: "sanitizeString (Str ''a$<b>x <<i>script>y</script >'') = Str ''a script>y''"
    by code_simp
  from sanitizeString_idempotent [of "Str ''a$<b>x <<i>script>y</script >''"]
  show ?thesis unfolding run .
qed

subsection \<open>Script tokens\<close>

lemma js_includes_iff: "js_includes s p \<longleftrightarrow> (\<exists>a b. s = a @ p @ b)"
proof (induction s)
  case Nil
  show ?case by auto
next
  case (Cons c cs)
  show ?case
  proof
    assume "js_includes (c # cs) p"
    then consider "prefix p (c # cs)" | "js_includes cs p" by auto
    then show "\<exists>a b. c # cs = a @ p @ b"
    proof cases
      case 1
      then obtain b where "c # cs = [] @ p @ b" by (auto simp: prefix_def)
      then show ?thesis by blast
    next
      case 2
      with Cons obtain a b where "cs = a @ p @ b" by blast
      then have "c # cs = (c # a) @ p @ b" by simp
      then show ?thesis by blast
    qed
  next
    assume "\<exists>a b. c # cs = a @ p @ b"
    then obtain a b where ab: "c # cs = a @ p @ b" by blast
    show "js_includes (c # cs) p"
    proof (cases a)
      case Nil
      with ab have "prefix p (c # cs)" by (metis append_Nil prefixI)
      then show ?thesis by simp
    next
      case (Cons x a')
      with ab have "cs = a' @ p @ b" by simp
      with Cons.IH show ?thesis by auto
    qed
  qed
qed

lemma tag_token_excluded:
  assumes "\<not> has_match match_tag r" and "match_tag (p @ b) \<noteq> None" and "p \<noteq> []"
  shows "r \<noteq> a @ p @ b"
proof
  assume "r = a @ p @ b"
  with assms(2,3) have "\<exists>q u. r = q @ u \<and> match_tag u \<noteq> None \<and> u \<noteq> []"
    by blast
  then have "has_match match_tag r" by (simp only: has_match_suffix)
  with assms(1) show False by contradiction
qed

text \<open>
  C4. The sanitized string contains neither \<open><script>\<close> nor \<open></script>\<close>. This holds
  for every string, and so for every string that contains a script block: both tokens are
  markup tags, and no markup tag is left behind the second and third replacement.
\<close>

theorem sanitizeString_removes_script_tokens:
  "\<not> js_includes (str_of (sanitizeString (Str s))) ''<script>''
   \<and> \<not> js_includes (str_of (sanitizeString (Str s))) ''</script>''"
proof -
  have clean: "\<not> has_match match_tag (sanitize_text s)" by (rule sanitize_text_clean)
  have "\<not> js_includes (sanitize_text s) ''<script>''"
  proof
    assume "js_includes (sanitize_text s) ''<script>''"
    then obtain a b where "sanitize_text s = a @ ''<script>'' @ b"
      unfolding js_includes_iff by blast
    moreover have "match_tag (''<script>'' @ b) \<noteq> None" by (simp add: match_tag_def)
    ultimately show False using tag_token_excluded [OF clean, of "''<script>''" b a] by simp
  qed
  moreover have "\<not> js_includes (sanitize_text s) ''</script>''"
  proof
    assume "js_includes (sanitize_text s) ''</script>''"
    then obtain a b where "sanitize_text s = a @ ''</script>'' @ b"
      unfolding js_includes_iff by blast
    moreover have "match_tag (''</script>'' @ b) \<noteq> None" by (simp add: match_tag_def)
    ultimately show False using tag_token_excluded [OF clean, of "''</script>''" b a] by simp
  qed
  ultimately show ?thesis by simp
qed

theorem sanitizeString_removes_script_tokens_witness:
  "sanitizeString (Str ''<script>alert(1)</script>hi<script>'') = Str ''hi''
   \<and> \<not> js_includes ''hi'' ''<script>'' \<and> \<not> js_includes ''hi'' ''</script>''"
proof -
  have run: "sanitizeString (Str ''<script>alert(1)</script>hi<script>'') = Str ''hi''"
    by code_simp
  from sanitizeString_removes_script_tokens [of "''<script>alert(1)</script>hi<script>''"]
  show ?thesis unfolding run by simp
qed

section \<open>Structure of the sanitized object\<close>

lemma sanitizeObject_unfold:
  "sanitizeObject obj =
     (if typeof obj \<noteq> ''object'' \<or> obj = Null then obj
      else fold sanitize_entry (own_entries obj) (Obj None []))"
proof -
  have "(\<lambda>(key, v) sanitized.
           if startsWith key ''$'' then sanitized
           else if typeof v = ''string'' then js_assign sanitized key (sanitizeString v)
           else if typeof v = ''object'' then js_assign sanitized key (sanitizeObject v)
           else js_assign sanitized key v) = sanitize_entry"
    by (auto simp: fun_eq_iff sanitize_entry_def sanitize_value_def)
  then show ?thesis
    by (subst sanitizeObject.simps) simp
qed

lemma typeof_object_cases: "typeof v = ''object'' \<longleftrightarrow> v = Null \<or> (\<exists>xs. v = Arr xs) \<or> (\<exists>p kvs. v = Obj p kvs)"
  by (cases v) auto

lemma sanitize_entry_Obj: "\<exists>q kvs'. sanitize_entry kv (Obj p kvs) = Obj q kvs'"
  by (simp add: sanitize_entry_def)

lemma fold_sanitize_entry_Obj: "\<exists>q kvs'. fold sanitize_entry es (Obj p kvs) = Obj q kvs'"
proof (induction es arbitrary: p kvs)
  case Nil
  show ?case by simp
next
  case (Cons e es)
  obtain q kvs' where "sanitize_entry e (Obj p kvs) = Obj q kvs'"
    using sanitize_entry_Obj by blast
  with Cons show ?case by simp
qed

lemma typeof_sanitizeObject: "typeof (sanitizeObject v) = typeof v"
proof (cases "typeof v \<noteq> ''object'' \<or> v = Null")
  case True
  then show ?thesis by (simp add: sanitizeObject_unfold)
next
  case False
  obtain q kvs' where "fold sanitize_entry (own_entries v) (Obj None []) = Obj q kvs'"
    using fold_sanitize_entry_Obj by blast
  with False show ?thesis by (simp add: sanitizeObject_unfold)
qed

lemma nullish_sanitizeObject: "nullish (sanitizeObject v) = nullish v"
proof (cases "typeof v \<noteq> ''object'' \<or> v = Null")
  case True
  then show ?thesis by (simp add: sanitizeObject_unfold)
next
  case False
  obtain q kvs' where "fold sanitize_entry (own_entries v) (Obj None []) = Obj q kvs'"
    using fold_sanitize_entry_Obj by blast
  with False show ?thesis by (cases v) (simp_all add: sanitizeObject_unfold)
qed

lemma not_isArray_sanitizeObject: "\<not> isArray v \<Longrightarrow> \<not> isArray (sanitizeObject v)"
proof (cases "typeof v \<noteq> ''object'' \<or> v = Null")
  case True
  then show "\<not> isArray v \<Longrightarrow> ?thesis" by (simp add: sanitizeObject_unfold)
next
  case False
  obtain q kvs' where "fold sanitize_entry (own_entries v) (Obj None []) = Obj q kvs'"
    using fold_sanitize_entry_Obj by blast
  with False show ?thesis by (simp add: sanitizeObject_unfold)
qed

lemma keys_assign_prop: "fst ` set (assign_prop kvs k v) = insert k (fst ` set kvs)"
  by (induction kvs k v rule: assign_prop.induct) auto

lemma entries_assign_prop: "set (assign_prop kvs k v) \<subseteq> insert (k, v) (set kvs)"
  by (induction kvs k v rule: assign_prop.induct) auto

lemma entries_sanitize_entry:
  "set (own_entries (sanitize_entry e (Obj p kvs)))
     \<subseteq> (if startsWith (fst e) ''$'' then {} else {(fst e, sanitize_value (snd e))}) \<union> set kvs"
  using entries_assign_prop [of kvs "fst e" "sanitize_value (snd e)"]
  by (auto simp: sanitize_entry_def)

lemma entries_fold_sanitize_entry:
  "set (own_entries (fold sanitize_entry es (Obj p kvs)))
     \<subseteq> {(k, sanitize_value v) | k v. (k, v) \<in> set es \<and> \<not> startsWith k ''$''} \<union> set kvs"
proof (induction es arbitrary: p kvs)
  case Nil
  show ?case by simp
next
  case (Cons e es)
  obtain q kvs' where step: "sanitize_entry e (Obj p kvs) = Obj q kvs'"
    using sanitize_entry_Obj by blast
  have "set kvs' \<subseteq> (if startsWith (fst e) ''$'' then {} else {(fst e, sanitize_value (snd e))}) \<union> set kvs"
    using entries_sanitize_entry [of e p kvs] step by simp
  moreover have "set (own_entries (fold sanitize_entry es (Obj q kvs')))
     \<subseteq> {(k, sanitize_value v) | k v. (k, v) \<in> set es \<and> \<not> startsWith k ''$''} \<union> set kvs'"
    by (rule Cons.IH)
  moreover have "{(k, sanitize_value v) | k v. (k, v) \<in> set (e # es) \<and> \<not> startsWith k ''$''}
      = (if startsWith (fst e) ''$'' then {} else {(fst e, sanitize_value (snd e))})
        \<union> {(k, sanitize_value v) | k v. (k, v) \<in> set es \<and> \<not> startsWith k ''$''}"
    by (cases e) auto
  ultimately have "set (own_entries (fold sanitize_entry es (Obj q kvs')))
     \<subseteq> {(k, sanitize_value v) | k v. (k, v) \<in> set (e # es) \<and> \<not> startsWith k ''$''} \<union> set kvs"
    by blast
  then show ?case
    by (simp only: fold_Cons_rev fold.simps o_apply step)
qed

lemma entries_sanitizeObject:
  assumes "typeof v = ''object''" and "(k, w) \<in> set (own_entries (sanitizeObject v))"
  shows "\<exists>w0. (k, w0) \<in> set (own_entries v) \<and> \<not> startsWith k ''$'' \<and> w = sanitize_value w0"
proof (cases "v = Null")
  case True
  with assms show ?thesis by (simp add: sanitizeObject_unfold)
next
  case False
  with assms have "(k, w) \<in> set (own_entries (fold sanitize_entry (own_entries v) (Obj None [])))"
    by (simp add: sanitizeObject_unfold)
  then show ?thesis
    using entries_fold_sanitize_entry [of "own_entries v" None "[]"] by auto
qed

lemma keys_sanitizeObject:
  "fst ` set (own_entries (sanitizeObject v)) \<subseteq> fst ` set (own_entries v)"
proof (cases "typeof v = ''object''")
  case True
  then show ?thesis using entries_sanitizeObject [OF True] by force
next
  case False
  then show ?thesis by (simp add: sanitizeObject_unfold)
qed

section \<open>The identifier validator\<close>

text \<open>
  C2. An identifier that fails the store's format test is answered with 400 and
  \<open>{error: "Invalid task ID format"}\<close>; \<open>next\<close> is not called. On the three routes that
  take an identifier the answer is the same whatever the Task model would do, and the store
  is left as it was: no lookup takes place.
\<close>

theorem validateObjectId_rejects:
  assumes "\<not> isValid ident"
  shows "validateObjectId isValid ident
           = Responded \<lparr>statusCode = Num 400,
                         body = Obj None [(''error'', Str ''Invalid task ID format'')]\<rparr>
         \<and> route_get_one Task isValid ident s
           = (Sent \<lparr>statusCode = Num 400,
                     body = Obj None [(''error'', Str ''Invalid task ID format'')]\<rparr>, s)
         \<and> route_put Task isValid ident req_body s
           = (Sent \<lparr>statusCode = Num 400,
                     body = Obj None [(''error'', Str ''Invalid task ID format'')]\<rparr>, s)
         \<and> route_delete Task isValid ident s
           = (Sent \<lparr>statusCode = Num 400,
                     body = Obj None [(''error'', Str ''Invalid task ID format'')]\<rparr>, s)"
  using assms
  by (simp add: validateObjectId_def route_get_one_def route_put_def route_delete_def)

theorem validateObjectId_rejects_witness:
  "\<not> hex24 ''42''
   \<and> validateObjectId hex24 ''42''
       = Responded \<lparr>statusCode = Num 400,
                     body = Obj None [(''error'', Str ''Invalid task ID format'')]\<rparr>
   \<and> route_get_one (unreachable :: store task_model) hex24 ''42'' []
       = (Sent \<lparr>statusCode = Num 400,
                 body = Obj None [(''error'', Str ''Invalid task ID format'')]\<rparr>, [])
   \<and> route_put (unreachable :: store task_model) hex24 ''42'' (Obj None [(''title'', Str ''x'')]) []
       = (Sent \<lparr>statusCode = Num 400,
                 body = Obj None [(''error'', Str ''Invalid task ID format'')]\<rparr>, [])
   \<and> route_delete (unreachable :: store task_model) hex24 ''42'' []
       = (Sent \<lparr>statusCode = Num 400,
                 body = Obj None [(''error'', Str ''Invalid task ID format'')]\<rparr>, [])"
proof -
  have bad: "\<not> hex24 ''42''" by (simp add: hex24_def)
  from validateObjectId_rejects [where isValid = hex24 and ident = "''42''"
      and Task = "unreachable :: store task_model" and s = "[]"
      and req_body = "Obj None [(''title'', Str ''x'')]"] bad
  show ?thesis by blast
qed

section \<open>Totality of the error handler\<close>

text \<open>
  C10. \<open>errorHandler\<close> sends a response whose body has a string \<open>error\<close> exactly on the
  failure objects described by \<open>plain_failure\<close>: the failure is not \<open>undefined\<close> or \<open>null\<close>;
  a ValidationError carries an \<open>errors\<close> object without \<open>undefined\<close> or \<open>null\<close> entries; a
  duplicate-key failure carries a \<open>keyPattern\<close>; a failure answered with its own message
  has a string as message. On every other failure object the handler throws a TypeError or
  sends an \<open>error\<close> that is not a string. An empty \<open>keyPattern\<close> does not make it fail.
\<close>

theorem errorHandler_total_iff:
  "(\<exists>res. outcome (errorHandler node_env err) = Inr res
          \<and> typeof (js_get (body res) ''error'') = ''string'')
   \<longleftrightarrow> plain_failure err"
  by (cases "node_env = Some ''development''")
     (auto simp: errorHandler_def error_response_def plain_failure_def Let_def split: list.splits)

theorem errorHandler_total_iff_witness:
  "plain_failure (Obj None [(''code'', Num 11000), (''keyPattern'', Obj None [])])
   \<and> outcome (errorHandler None (Obj None [(''code'', Num 11000), (''keyPattern'', Obj None [])]))
       = Inr \<lparr>statusCode = Num 400,
               body = Obj None [(''error'', Str ''Duplicate value for field: undefined'')]\<rparr>"
  using errorHandler_total_iff [of None "Obj None [(''code'', Num 11000), (''keyPattern'', Obj None [])]"]
  by (simp add: plain_failure_def errorHandler_def error_response_def)

text \<open>A duplicate-key failure without \<open>keyPattern\<close>: the handler throws.\<close>

theorem errorHandler_fails: "outcome (errorHandler None (Obj None [(''code'', Num 11000)])) = Inl TypeError"
  by (simp add: errorHandler_def error_response_def)

section \<open>Payloads without the prototype key\<close>

lemma assign_prop_fresh: "k \<notin> fst ` set kvs \<Longrightarrow> assign_prop kvs k v = kvs @ [(k, v)]"
  by (induction kvs k v rule: assign_prop.induct) auto

lemma fold_sanitize_entry_fresh:
  assumes "distinct (map fst es)" and "fst ` set es \<inter> fst ` set acc = {}"
    and "''__proto__'' \<notin> fst ` set es"
  shows "fold sanitize_entry es (Obj p acc)
           = Obj p (acc @ map (\<lambda>e. (fst e, sanitize_value (snd e)))
                            (filter (\<lambda>e. \<not> startsWith (fst e) ''$'') es))"
  using assms
proof (induction es arbitrary: acc)
  case Nil
  show ?case by simp
next
  case (Cons e es)
  from Cons.prems have fresh: "fst e \<notin> fst ` set acc" and np: "fst e \<noteq> ''__proto__''"
    and d: "distinct (map fst es)" and ne: "fst e \<notin> fst ` set es"
    and disj: "fst ` set es \<inter> fst ` set acc = {}" and np': "''__proto__'' \<notin> fst ` set es"
    by auto
  show ?case
  proof (cases "startsWith (fst e) ''$''")
    case True
    then have "sanitize_entry e (Obj p acc) = Obj p acc" by (simp add: sanitize_entry_def)
    with True Cons.IH [OF d disj np'] show ?thesis by simp
  next
    case False
    then have step: "sanitize_entry e (Obj p acc) = Obj p (acc @ [(fst e, sanitize_value (snd e))])"
      using np fresh by (simp add: sanitize_entry_def assign_prop_fresh)
    have "fst ` set es \<inter> fst ` set (acc @ [(fst e, sanitize_value (snd e))]) = {}"
      using disj ne by auto
    from Cons.IH [OF d this np'] step False show ?thesis by simp
  qed
qed

text \<open>
  The object rule on a payload without the key \<open>__proto__\<close>: the properties whose names
  start with \<open>$\<close> are dropped, the others keep their order and hold the sanitized values.
\<close>

lemma sanitizeObject_plain:
  assumes "distinct (map fst kvs)" and "''__proto__'' \<notin> fst ` set kvs"
  shows "sanitizeObject (Obj p kvs)
           = Obj None (map (\<lambda>e. (fst e, sanitize_value (snd e)))
                          (filter (\<lambda>e. \<not> startsWith (fst e) ''$'') kvs))"
  using fold_sanitize_entry_fresh [OF assms(1) _ assms(2), of "[]" None]
  by (simp add: sanitizeObject_unfold)

lemma map_of_sanitized:
  "\<not> startsWith k ''$'' \<Longrightarrow>
   map_of (map (\<lambda>e. (fst e, f (snd e))) (filter (\<lambda>e. \<not> startsWith (fst e) ''$'') kvs)) k
     = map_option f (map_of kvs k)"
  by (induction kvs) auto

lemma trim_empty_iff: "trim s = [] \<longleftrightarrow> (\<forall>c \<in> set s. is_space c)"
proof -
  have "trim s = [] \<longleftrightarrow> (\<forall>c \<in> set (dropWhile is_space s). is_space c)"
    by (simp add: trim_def dropWhile_eq_Nil_conv)
  also have "\<dots> \<longleftrightarrow> dropWhile is_space s = []"
  proof
    assume all: "\<forall>c \<in> set (dropWhile is_space s). is_space c"
    show "dropWhile is_space s = []"
    proof (rule ccontr)
      assume ne: "dropWhile is_space s \<noteq> []"
      then have "\<not> is_space (hd (dropWhile is_space s))" by (rule hd_dropWhile)
      moreover from ne have "hd (dropWhile is_space s) \<in> set (dropWhile is_space s)" by simp
      ultimately show False using all by blast
    qed
  qed (auto dest: set_dropWhileD)
  also have "\<dots> \<longleftrightarrow> (\<forall>c \<in> set s. is_space c)"
    by (simp add: dropWhile_eq_Nil_conv)
  finally show ?thesis .
qed

lemma set_sanitize_text: "set (sanitize_text s) \<subseteq> set s"
  unfolding sanitize_text_def
  by (meson set_replace_all subset_trans)

lemma sanitize_value_blank:
  assumes "typeof t \<noteq> ''string'' \<or> trim (str_of t) = []"
  shows "typeof (sanitize_value t) \<noteq> ''string'' \<or> trim (str_of (sanitize_value t)) = []"
proof (cases t)
  case (Str s)
  with assms have "\<forall>c \<in> set s. is_space c" by (simp add: trim_empty_iff)
  with set_sanitize_text [of s] have "\<forall>c \<in> set (sanitize_text s). is_space c" by blast
  with Str show ?thesis by (simp add: sanitize_value_def trim_empty_iff)
qed (simp_all add: sanitize_value_def typeof_sanitizeObject)

text \<open>
  A payload object without the key \<open>__proto__\<close> whose title is absent, not a string, or
  blank is rejected with the title message first in the report.
\<close>

lemma validateTaskInput_rejects_title:
  assumes "distinct (map fst kvs)" and "''__proto__'' \<notin> fst ` set kvs"
    and "case map_of kvs ''title'' of
           None \<Rightarrow> True
         | Some t \<Rightarrow> typeof t \<noteq> ''string'' \<or> trim (str_of t) = []"
  shows "\<exists>rest. validateTaskInput (Obj p kvs) =
           Responded
             \<lparr>statusCode = Num 400,
              body = Obj None
                [(''error'', Str ''Validation failed''),
                 (''details'', Arr (Str title_required_message # rest))]\<rparr>"
proof -
  define b where "b = sanitizeObject (Obj p kvs)"
  have nb: "\<not> nullish b" by (simp add: b_def nullish_sanitizeObject)
  have ns: "\<not> startsWith ''title'' ''$''" by (simp add: startsWith_def)
  have "js_get b ''title''
          = (case map_of kvs ''title'' of None \<Rightarrow> Undefined | Some t \<Rightarrow> sanitize_value t)"
    unfolding b_def sanitizeObject_plain [OF assms(1,2)]
    by (simp add: map_of_sanitized [OF ns] split: option.splits)
  with assms(3) have "typeof (js_get b ''title'') \<noteq> ''string'' \<or> trim (str_of (js_get b ''title'')) = []"
    using sanitize_value_blank by (auto split: option.splits)
  then have bad: "\<not> truthy (js_get b ''title'') \<or> typeof (js_get b ''title'') \<noteq> ''string''
      \<or> trim (str_of (js_get b ''title'')) = []"
    by blast
  show ?thesis
    unfolding validateTaskInput_def Let_def b_def [symmetric]
    using nb bad by simp
qed

section \<open>Store failures\<close>

text \<open>
  The error handler answers a connectivity or timeout failure with 503 and without a stack
  outside development mode, and \<open>GET /tasks\<close>, wrapped in \<open>asyncHandler\<close>, hands the failure
  to it.
\<close>

lemma errorHandler_unavailable:
  assumes "js_get err ''name'' = Str ''MongoNetworkError'' \<or> js_get err ''name'' = Str ''MongoTimeoutError''"
    and "js_get err ''code'' \<noteq> Num 11000" and "\<not> nullish err" and "node_env \<noteq> Some ''development''"
  shows "outcome (errorHandler node_env err)
           = Inr \<lparr>statusCode = Num 503,
                   body = Obj None [(''error'', Str ''Service temporarily unavailable'')]\<rparr>"
  using assms by (auto simp: errorHandler_def error_response_def)

lemma route_get_all_network_failure:
  "fst (route_get_all unreachable s) = Forwarded network_error
   \<and> outcome (errorHandler None network_error)
       = Inr \<lparr>statusCode = Num 503,
               body = Obj None [(''error'', Str ''Service temporarily unavailable'')]\<rparr>"
  by (simp add: route_get_all_def asyncHandler_def unreachable_def
        errorHandler_def error_response_def network_error_def)

lemma validate_buy_milk:
  "validateTaskInput (Obj None [(''title'', Str ''Buy milk'')])
     = Next (Obj None [(''title'', Str ''Buy milk'')])"
  by code_simp

text \<open>
  C1. \<open>POST /tasks\<close> with a valid body while the store is unreachable: the route's own
  \<open>catch\<close> block answers 400 with the message of the failure; the failure is not handed
  to \<open>next\<close>, so it never reaches the error handler, and no 503 is sent. The routes
  \<open>GET /:id\<close>, \<open>PUT /:id\<close> and \<open>DELETE /:id\<close> share that \<open>catch\<close> block.
\<close>

theorem route_post_network_failure:
  "fst (route_post unreachable (Obj None [(''title'', Str ''Buy milk'')]) s)
     = Sent \<lparr>statusCode = Num 400, body = Obj None [(''error'', Str ''connection lost'')]\<rparr>"
  by (simp add: route_post_def validate_buy_milk unreachable_def catch_400_def network_error_def)

theorem route_post_network_failure_witness:
  "fst (route_post unreachable (Obj None [(''title'', Str ''Buy milk'')]) ())
     = Sent \<lparr>statusCode = Num 400, body = Obj None [(''error'', Str ''connection lost'')]\<rparr>"
  by (rule route_post_network_failure)

lemma route_by_id_network_failure:
  assumes "isValid ident"
  shows "fst (route_get_one unreachable isValid ident s)
           = Sent \<lparr>statusCode = Num 400, body = Obj None [(''error'', Str ''connection lost'')]\<rparr>"
    and "fst (route_delete unreachable isValid ident s)
           = Sent \<lparr>statusCode = Num 400, body = Obj None [(''error'', Str ''connection lost'')]\<rparr>"
  using assms
  by (simp_all add: route_get_one_def route_delete_def validateObjectId_def unreachable_def
        catch_400_def network_error_def)

section \<open>Shape of sanitized values\<close>






section \<open>The creation validator\<close>

text \<open>
  C5. A creation payload without a title can pass: parsed from JSON, the key \<open>__proto__\<close>
  is an own property; the loop of \<open>sanitizeObject\<close> assigns it to the fresh object, which
  replaces that object's prototype; the validator then reads \<open>title\<close> through the
  prototype and calls \<open>next\<close>.
\<close>

theorem validateTaskInput_inherited_title:
  "validateTaskInput (Obj None [(''__proto__'', Obj None [(''title'', Str ''x'')])])
     = Next (Obj (Some (Obj None [(''title'', Str ''x'')])) [])"
  by code_simp

theorem validateTaskInput_inherited_title_witness:
  "map_of (own_entries (Obj None [(''__proto__'', Obj None [(''title'', Str ''x'')])])) ''title''
     = None
   \<and> validateTaskInput (Obj None [(''__proto__'', Obj None [(''title'', Str ''x'')])])
     = Next (Obj (Some (Obj None [(''title'', Str ''x'')])) [])"
  using validateTaskInput_inherited_title by simp

text \<open>
  On a payload object without the key \<open>__proto__\<close> the creation validator does not stop at
  the first broken rule: the report holds the message of every rule that the fields of the
  sanitized payload break, one per rule and in the order of the rules, and \<open>next\<close> is called
  with the sanitized payload only when no rule is broken.
\<close>

lemma falsy_string: "typeof v = ''string'' \<Longrightarrow> \<not> truthy v \<Longrightarrow> trim (str_of v) = []"
  by (cases v) (auto simp: trim_def)

lemma js_get_own_field: "js_get (Obj None kvs) k = own_field (Obj None kvs) k"
  by (simp add: own_field_def split: option.splits)

lemma validateTaskInput_reports_every_rule:
  assumes "distinct (map fst kvs)" and "''__proto__'' \<notin> fst ` set kvs"
  shows "validateTaskInput (Obj p kvs) =
           (if creation_report (sanitizeObject (Obj p kvs)) = []
            then Next (sanitizeObject (Obj p kvs))
            else Responded
                   \<lparr>statusCode = Num 400,
                    body = Obj None
                      [(''error'', Str ''Validation failed''),
                       (''details'',
                        Arr (map Str (creation_report (sanitizeObject (Obj p kvs)))))]\<rparr>)"
proof -
  define b where "b = sanitizeObject (Obj p kvs)"
  have nb: "\<not> nullish b" by (simp add: b_def nullish_sanitizeObject)
  obtain kvs' where bk: "b = Obj None kvs'"
    unfolding b_def sanitizeObject_plain [OF assms] by blast
  have g: "js_get b k = own_field b k" for k
    unfolding bk by (rule js_get_own_field)
  have t: "(\<not> truthy (own_field b ''title'') \<or> typeof (own_field b ''title'') \<noteq> ''string''
             \<or> trim (str_of (own_field b ''title'')) = []) = title_rule_broken b"
    unfolding title_rule_broken_def using falsy_string [of "own_field b ''title''"]
    by (cases "own_field b ''title''") auto
  show ?thesis
    unfolding validateTaskInput_def Let_def b_def [symmetric] g t
    using nb
    by (simp add: creation_report_def creation_rules_def status_rule_broken_def
          description_rule_broken_def)
qed

lemma validateTaskInput_two_messages:
  "validateTaskInput (Obj None [(''title'', Str ''''), (''status'', Str ''invalid'')])
     = Responded
         \<lparr>statusCode = Num 400,
          body = Obj None
            [(''error'', Str ''Validation failed''),
             (''details'', Arr [Str title_required_message, Str status_enum_message])]\<rparr>"
  by code_simp

text \<open>
  C6. A payload that breaks three rules and gets two messages: the payload
  \<open>{"__proto__": {"title": "x"}, "status": "invalid", "description": 1}\<close> has no title, a
  status outside the enumeration and a description that is not a string. The sanitizer
  turns the \<open>__proto__\<close> property into the prototype of the sanitized payload, the validator
  reads \<open>title\<close> through it, and the report lacks the title message.
\<close>

theorem validateTaskInput_report_misses_title:
  "creation_report
     (sanitizeObject (Obj None [(''__proto__'', Obj None [(''title'', Str ''x'')]),
                                (''status'', Str ''invalid''), (''description'', Num 1)]))
     = [title_required_message, status_enum_message, description_message]
   \<and> validateTaskInput (Obj None [(''__proto__'', Obj None [(''title'', Str ''x'')]),
                                  (''status'', Str ''invalid''), (''description'', Num 1)])
     = Responded
         \<lparr>statusCode = Num 400,
          body = Obj None
            [(''error'', Str ''Validation failed''),
             (''details'', Arr [Str status_enum_message, Str description_message])]\<rparr>"
  by code_simp

theorem validateTaskInput_report_misses_title_witness:
  "validateTaskInput (Obj None [(''__proto__'', Obj None [(''title'', Str ''x'')]),
                                  (''status'', Str ''invalid''), (''description'', Num 1)])
     = Responded
         \<lparr>statusCode = Num 400,
          body = Obj None
            [(''error'', Str ''Validation failed''),
             (''details'', Arr [Str status_enum_message, Str description_message])]\<rparr>"
  using validateTaskInput_report_misses_title by (rule conjunct2)

section \<open>The update validator\<close>

text \<open>
  An update without a body: the request body is \<open>undefined\<close>, it has no key at all, and the
  destructuring throws; no 400 is sent.
\<close>

theorem validateTaskUpdate_without_body: "validateTaskUpdate Undefined = Threw TypeError"
  by code_simp

text \<open>
  C7 (amended). An update payload that is not \<open>undefined\<close> or \<open>null\<close> and none of whose
  keys is \<open>title\<close>, \<open>status\<close> or \<open>description\<close>, the object without keys included, is
  answered with 400 and a report that starts with the message "At least one valid field
  (title, status, or description) must be provided"; \<open>next\<close> is not called.
\<close>

theorem validateTaskUpdate_no_valid_field:
  assumes "\<not> nullish payload"
    and "\<forall>k \<in> fst ` set (own_entries payload). k \<notin> {''title'', ''status'', ''description''}"
  shows "\<exists>rest. validateTaskUpdate payload =
           Responded
             \<lparr>statusCode = Num 400,
              body = Obj None
                [(''error'', Str ''Validation failed''),
                 (''details'', Arr (Str no_valid_field_message # rest))]\<rparr>"
proof -
  define b where "b = sanitizeObject payload"
  have nb: "\<not> nullish b" using assms(1) by (simp add: b_def nullish_sanitizeObject)
  have "fst ` set (own_entries b) \<subseteq> fst ` set (own_entries payload)"
    unfolding b_def by (rule keys_sanitizeObject)
  then have "\<forall>k \<in> fst ` set (own_entries b). k \<notin> {''title'', ''status'', ''description''}"
  proof (intro ballI)
    fix k
    assume sub: "fst ` set (own_entries b) \<subseteq> fst ` set (own_entries payload)"
      and "k \<in> fst ` set (own_entries b)"
    then have "k \<in> fst ` set (own_entries payload)" by (rule subsetD)
    with assms(2) show "k \<notin> {''title'', ''status'', ''description''}" by (rule bspec)
  qed
  then have novalid:
    "\<not> list_ex (\<lambda>field. field \<in> set [''title'', ''status'', ''description''])
         (map fst (own_entries b))"
    unfolding list_ex_iff by simp
  show ?thesis
    unfolding validateTaskUpdate_def Let_def b_def [symmetric]
    using nb novalid by simp
qed

theorem validateTaskUpdate_no_valid_field_witness:
  "\<not> nullish (Obj None [(''priority'', Num 1), (''$set'', Null)])
   \<and> validateTaskUpdate (Obj None [(''priority'', Num 1), (''$set'', Null)]) =
       Responded
         \<lparr>statusCode = Num 400,
          body = Obj None
            [(''error'', Str ''Validation failed''),
             (''details'', Arr [Str no_valid_field_message])]\<rparr>"
proof -
  have run: "validateTaskUpdate (Obj None [(''priority'', Num 1), (''$set'', Null)]) =
       Responded
         \<lparr>statusCode = Num 400,
          body = Obj None
            [(''error'', Str ''Validation failed''),
             (''details'', Arr [Str no_valid_field_message])]\<rparr>"
    by code_simp
  from validateTaskUpdate_no_valid_field [of "Obj None [(''priority'', Num 1), (''$set'', Null)]"]
  show ?thesis unfolding run by simp
qed

section \<open>Updates through PUT\<close>

text \<open>
  The update validator and the route do not remove a key such as \<open>createdAt\<close> from the
  payload; they hand it to the store's update.
\<close>

lemma validateTaskUpdate_passes_createdAt:
  "validateTaskUpdate
     (Obj None [(''title'', Str ''Buy bread''), (''createdAt'', Str ''1999-01-01T00:00:00.000Z'')])
   = Next (Obj None [(''title'', Str ''Buy bread''),
                     (''createdAt'', Str ''1999-01-01T00:00:00.000Z'')])"
  by code_simp

lemma js_get_js_assign_other:
  "k \<noteq> k' \<Longrightarrow> k \<noteq> ''__proto__'' \<Longrightarrow> js_get (js_assign d k v) k' = js_get d k'"
proof (cases d)
  case (Obj p kvs)
  assume "k \<noteq> k'" "k \<noteq> ''__proto__''"
  moreover from \<open>k \<noteq> k'\<close> have "map_of (assign_prop kvs k v) k' = map_of kvs k'"
    by (induction kvs k v rule: assign_prop.induct) auto
  ultimately show ?thesis using Obj by simp
qed simp_all

lemma mutable_not_proto: "k \<in> set mutable_fields \<Longrightarrow> k \<noteq> ''__proto__''"
  by (auto simp: mutable_fields_def)

lemma write_fields_keeps:
  assumes "k' \<notin> set mutable_fields"
  shows "js_get (write_fields doc given) k' = js_get doc k'"
proof -
  have "js_get (fold (\<lambda>(k, v) d. if k \<in> set mutable_fields then js_assign d k v else d) es d) k'
          = js_get d k'" for es d
  proof (induction es arbitrary: d)
    case Nil
    show ?case by simp
  next
    case (Cons e es)
    obtain k v where e: "e = (k, v)" by (cases e)
    have "js_get (if k \<in> set mutable_fields then js_assign d k v else d) k' = js_get d k'"
    proof (cases "k \<in> set mutable_fields")
      case True
      then have "k \<noteq> ''__proto__''" by (rule mutable_not_proto)
      moreover from True assms have "k \<noteq> k'" by blast
      ultimately show ?thesis using True by (simp add: js_get_js_assign_other)
    next
      case False
      then show ?thesis by simp
    qed
    with Cons.IH e show ?case by simp
  qed
  then show ?thesis by (simp add: write_fields_def)
qed

lemma replace_first_keeps:
  assumes "find P st = Some doc" and "f doc' = f doc"
  shows "map f (replace_first P doc' st) = map f st"
  using assms by (induction st) (auto split: if_splits)

lemma update_keeps:
  assumes "k' \<notin> set mutable_fields"
  shows "map (\<lambda>d. js_get d k') (snd (store_findByIdAndUpdate ident given st))
           = map (\<lambda>d. js_get d k') st"
proof (cases "find (has_id ident) st")
  case None
  then show ?thesis by (simp add: store_findByIdAndUpdate_def)
next
  case (Some doc)
  have "js_get (write_fields doc given) k' = js_get doc k'"
    using assms by (rule write_fields_keeps)
  then have "map (\<lambda>d. js_get d k') (replace_first (has_id ident) (write_fields doc given) st)
               = map (\<lambda>d. js_get d k') st"
    using Some by (intro replace_first_keeps)
  with Some show ?thesis by (simp add: store_findByIdAndUpdate_def Let_def)
qed

lemma route_put_store:
  "snd (route_put T isValid ident payload st) = st
   \<or> (\<exists>b. snd (route_put T isValid ident payload st) = snd (Task_findByIdAndUpdate T ident b st))"
proof (cases "validateObjectId isValid ident")
  case (Next u)
  show ?thesis
  proof (cases "validateTaskUpdate payload")
    case inner: (Next b)
    obtain r s' where "Task_findByIdAndUpdate T ident b st = (r, s')" by force
    then have "snd (route_put T isValid ident payload st) = snd (Task_findByIdAndUpdate T ident b st)"
      using Next inner by (cases r) (simp_all add: route_put_def)
    then show ?thesis by blast
  qed (simp_all add: route_put_def Next)
qed (simp_all add: route_put_def)

lemma put_keeps_field:
  assumes "k \<notin> set mutable_fields"
  shows "map (\<lambda>d. js_get d k) (snd (route_put (task_store new_id now) isValid ident payload st))
           = map (\<lambda>d. js_get d k) st"
proof -
  from route_put_store [of "task_store new_id now" isValid ident payload st]
  consider "snd (route_put (task_store new_id now) isValid ident payload st) = st"
    | b where "snd (route_put (task_store new_id now) isValid ident payload st)
                 = snd (store_findByIdAndUpdate ident b st)"
    by (auto simp: task_store_def)
  then show ?thesis
  proof cases
    case 1
    then show ?thesis by simp
  next
    case 2
    then show ?thesis using update_keeps [OF assms] by simp
  qed
qed

text \<open>
  C8. Whatever keys the payload of a \<open>PUT\<close> carries, and whether the update is applied or
  rejected, every stored task keeps its \<open>_id\<close> and its \<open>createdAt\<close>: only \<open>title\<close>,
  \<open>description\<close> and \<open>status\<close> can change; every other property of every stored task is
  read as before.
\<close>

theorem put_keeps_id_and_createdAt:
  "map (\<lambda>d. js_get d ''_id'')
       (snd (route_put (task_store new_id now) isValid ident payload st))
     = map (\<lambda>d. js_get d ''_id'') st
   \<and> map (\<lambda>d. js_get d ''createdAt'')
       (snd (route_put (task_store new_id now) isValid ident payload st))
     = map (\<lambda>d. js_get d ''createdAt'') st
   \<and> (\<forall>k. k \<notin> {''title'', ''description'', ''status''} \<longrightarrow>
         map (\<lambda>d. js_get d k)
             (snd (route_put (task_store new_id now) isValid ident payload st))
           = map (\<lambda>d. js_get d k) st)"
proof (intro conjI allI impI)
  show "map (\<lambda>d. js_get d ''_id'')
          (snd (route_put (task_store new_id now) isValid ident payload st))
        = map (\<lambda>d. js_get d ''_id'') st"
    by (rule put_keeps_field) (simp add: mutable_fields_def)
  show "map (\<lambda>d. js_get d ''createdAt'')
          (snd (route_put (task_store new_id now) isValid ident payload st))
        = map (\<lambda>d. js_get d ''createdAt'') st"
    by (rule put_keeps_field) (simp add: mutable_fields_def)
next
  fix k :: string
  assume "k \<notin> {''title'', ''description'', ''status''}"
  then have "k \<notin> set mutable_fields" by (simp add: mutable_fields_def)
  then show "map (\<lambda>d. js_get d k)
          (snd (route_put (task_store new_id now) isValid ident payload st))
        = map (\<lambda>d. js_get d k) st"
    by (rule put_keeps_field)
qed

theorem put_keeps_id_and_createdAt_witness:
  "route_put example_store hex24 ''507f1f77bcf86cd799439011''
     (Obj None [(''title'', Str ''Buy bread''), (''createdAt'', Str ''1999-01-01T00:00:00.000Z''),
                (''_id'', Str ''000000000000000000000000'')])
     [milk]
   = (Sent \<lparr>statusCode = Num 200,
            body = Obj None [(''_id'', Str ''507f1f77bcf86cd799439011''), (''title'', Str ''Buy bread''),
                    (''status'', Str ''pending''), (''createdAt'', Str ''2024-01-15T10:30:00.000Z'')]\<rparr>,
      [Obj None [(''_id'', Str ''507f1f77bcf86cd799439011''), (''title'', Str ''Buy bread''),
                    (''status'', Str ''pending''), (''createdAt'', Str ''2024-01-15T10:30:00.000Z'')]])
   \<and> map (\<lambda>d. js_get d ''createdAt'') [milk] = [Str ''2024-01-15T10:30:00.000Z'']"
proof -
  have run: "route_put example_store hex24 ''507f1f77bcf86cd799439011''
     (Obj None [(''title'', Str ''Buy bread''), (''createdAt'', Str ''1999-01-01T00:00:00.000Z''),
                (''_id'', Str ''000000000000000000000000'')])
     [milk]
   = (Sent \<lparr>statusCode = Num 200,
            body = Obj None [(''_id'', Str ''507f1f77bcf86cd799439011''), (''title'', Str ''Buy bread''),
                    (''status'', Str ''pending''), (''createdAt'', Str ''2024-01-15T10:30:00.000Z'')]\<rparr>,
      [Obj None [(''_id'', Str ''507f1f77bcf86cd799439011''), (''title'', Str ''Buy bread''),
                    (''status'', Str ''pending''), (''createdAt'', Str ''2024-01-15T10:30:00.000Z'')]])"
    by code_simp
  from put_keeps_id_and_createdAt [of "\<lambda>st. ''507f1f77bcf86cd799439012''" Null hex24
      "''507f1f77bcf86cd799439011''"
      "Obj None [(''title'', Str ''Buy bread''), (''createdAt'', Str ''1999-01-01T00:00:00.000Z''),
                (''_id'', Str ''000000000000000000000000'')]" "[milk]"]
  show ?thesis unfolding example_store_def [symmetric] run by (simp add: milk_def)
qed

end
